theory Spec2Isabelle
  imports Main "HOL-Library.Multiset"
begin

section \<open>Data model of the post controller\<close>

text \<open>
  The controller \<^verbatim>\<open>src/controllers/postController.js\<close> works on two Mongoose
  collections, \<^verbatim>\<open>Post\<close> and \<^verbatim>\<open>User\<close>, and on the \<^verbatim>\<open>cloudinary\<close> uploader.
  Object ids are strings (the controller compares them through \<^verbatim>\<open>toString()\<close>),
  dates are integers (milliseconds), a JavaScript field that may be \<^verbatim>\<open>undefined\<close>
  is an \<open>option\<close>. The records carry the fields the controller reads or writes.
  The ids of a request are well-formed object ids: the cast error of Mongoose on a
  malformed id is outside the model.
\<close>

type_synonym oid = string
type_synonym time = int

record User =
  user_id :: oid
  user_name :: string
  profilePicture :: string
  following :: "oid list"

record Reply =
  userId :: oid
  reply_text :: string
  userProfilePic :: string
  username :: string
  reply_createdAt :: "time option"

record Post =
  post_id :: oid
  postedBy :: oid
  post_text :: string
  img :: "string option"
  likes :: "oid list"
  replies :: "Reply list"
  createdAt :: time

text \<open>
  The four kinds of failure of the specification, each with the message of the JSON
  body: status 400 is \<open>InvalidInput\<close>, 404 is \<open>NotFound\<close>, 401 is \<open>Unauthorized\<close>,
  and the 500 of every \<^verbatim>\<open>catch\<close> block is \<open>StorageError\<close> with \<^verbatim>\<open>err.message\<close>.
\<close>

datatype error =
    InvalidInput string
  | NotFound string
  | Unauthorized string
  | StorageError string

text \<open>
  Calls that the controller issues to its collaborators and that write: the two
  cloudinary calls and the writes to the Post collection, in the order issued.
\<close>

datatype call =
    Upload string
  | Destroy string
  | PostSave oid
  | PostUpdate oid
  | PostDelete oid

text \<open>
  The state outside the controller: both collections in store order, and the log of
  the calls issued so far (oldest first). The collections are in memory and their
  operations do not fail.
\<close>

record store =
  users :: "User list"
  posts :: "Post list"
  calls :: "call list"

text \<open>
  The cloudinary uploader: a call either throws (\<open>Inl\<close> the error's message) or
  returns; \<^verbatim>\<open>upload\<close> returns the \<^verbatim>\<open>secure_url\<close> of the stored image.
\<close>

record cloudinary =
  upload :: "string \<Rightarrow> string + string"
  destroy :: "string \<Rightarrow> string + unit"

section \<open>JavaScript and Mongoose primitives\<close>

text \<open>\<^verbatim>\<open>!v\<close> on a string that may be undefined: false for undefined and for the empty string.\<close>

fun truthy :: "string option \<Rightarrow> bool" where
  "truthy None = False"
| "truthy (Some v) = (v \<noteq> [])"

text \<open>\<^verbatim>\<open>s.split(c)\<close> for a one-character separator: never an empty array.\<close>

fun js_split :: "char \<Rightarrow> string \<Rightarrow> string list" where
  "js_split c [] = [[]]"
| "js_split c (x # xs) =
     (if x = c then [] # js_split c xs
      else (case js_split c xs of
              [] \<Rightarrow> [[x]]
            | w # ws \<Rightarrow> (x # w) # ws))"

text \<open>
  \<^verbatim>\<open>Array.prototype.sort(comparefn)\<close>: stable; \<open>comparefn a b < 0\<close> puts \<open>a\<close> first.
  The element being inserted stood before the others in the array, so it goes
  before the elements it compares equal to. This is the result of every stable sort
  when the comparator is consistent on the array; for a comparator that is not (here,
  replies of which one has no \<^verbatim>\<open>createdAt\<close>) ECMAScript leaves the order to the
  implementation, and nothing below relies on the order then.
\<close>

fun insort_by :: "('a \<Rightarrow> 'a \<Rightarrow> int) \<Rightarrow> 'a \<Rightarrow> 'a list \<Rightarrow> 'a list" where
  "insort_by cmp x [] = [x]"
| "insort_by cmp x (y # ys) =
     (if cmp x y \<le> 0 then x # y # ys else y # insort_by cmp x ys)"

definition js_sort :: "('a \<Rightarrow> 'a \<Rightarrow> int) \<Rightarrow> 'a list \<Rightarrow> 'a list" where
  "js_sort cmp xs = foldr (insort_by cmp) xs []"

text \<open>\<^verbatim>\<open>Model.findById(id)\<close>: the first document with that id, or null.\<close>

definition User_findById :: "oid \<Rightarrow> User list \<Rightarrow> User option" where
  "User_findById i us = find (\<lambda>u. user_id u = i) us"

definition Post_findById :: "oid \<Rightarrow> Post list \<Rightarrow> Post option" where
  "Post_findById i ps = find (\<lambda>p. post_id p = i) ps"

text \<open>
  \<^verbatim>\<open>Post.updateOne({ _id: i }, u)\<close>: the update applied to the first document with
  that id. \<^verbatim>\<open>post.save()\<close> on a loaded document writes the document back over the
  stored one.
\<close>

fun updateOne :: "oid \<Rightarrow> (Post \<Rightarrow> Post) \<Rightarrow> Post list \<Rightarrow> Post list" where
  "updateOne i f [] = []"
| "updateOne i f (p # ps) =
     (if post_id p = i then f p # ps else p # updateOne i f ps)"

definition save :: "Post \<Rightarrow> Post list \<Rightarrow> Post list" where
  "save p ps = updateOne (post_id p) (\<lambda>_. p) ps"

text \<open>\<^verbatim>\<open>Post.findByIdAndDelete(i)\<close>: removes the first document with that id.\<close>

fun findByIdAndDelete :: "oid \<Rightarrow> Post list \<Rightarrow> Post list" where
  "findByIdAndDelete i [] = []"
| "findByIdAndDelete i (p # ps) =
     (if post_id p = i then ps else p # findByIdAndDelete i ps)"

text \<open>
  \<^verbatim>\<open>Post.find({ postedBy: { $in: owners } }).sort({ createdAt: -1 })\<close>: the posts of
  the owners, newest first.
\<close>

definition compare_posts :: "Post \<Rightarrow> Post \<Rightarrow> int" where
  "compare_posts a b = createdAt b - createdAt a"

definition Post_find_in :: "oid list \<Rightarrow> Post list \<Rightarrow> Post list" where
  "Post_find_in owners ps =
     js_sort compare_posts (filter (\<lambda>p. postedBy p \<in> set owners) ps)"

text \<open>
  Modelled from the spec: the Post schema of \<^verbatim>\<open>models/postModel.js\<close>, which is not
  among the sources. A new Post has \<open>likes = \<emptyset>\<close> and \<open>replies = []\<close>, and its
  \<open>createdAt\<close> is assigned by the system.
\<close>

definition new_Post :: "oid \<Rightarrow> time \<Rightarrow> oid \<Rightarrow> string \<Rightarrow> string option \<Rightarrow> Post" where
  "new_Post fresh now pb t i =
     \<lparr>post_id = fresh, postedBy = pb, post_text = t, img = i,
      likes = [], replies = [], createdAt = now\<rparr>"

text \<open>
  Modelled from the spec: the Reply sub-schema of \<^verbatim>\<open>models/postModel.js\<close>, which is
  not among the sources. The \<open>createdAt\<close> of a Reply is assigned by the system at
  insertion: the plain object handed to \<^verbatim>\<open>unshift\<close> is cast to a sub-document that
  carries the time of the insertion; the plain object itself is not changed.
\<close>

definition cast_Reply :: "time \<Rightarrow> Reply \<Rightarrow> Reply" where
  "cast_Reply now r = r\<lparr>reply_createdAt := Some now\<rparr>"

text \<open>
  The comparator of \<^verbatim>\<open>replyToPost\<close>, \<^verbatim>\<open>(a, b) => b.createdAt - a.createdAt\<close>. With
  an undefined operand the difference is NaN, which \<^verbatim>\<open>sort\<close> reads as 0.
\<close>

definition compare_replies :: "Reply \<Rightarrow> Reply \<Rightarrow> int" where
  "compare_replies a b =
     (case (reply_createdAt b, reply_createdAt a) of
        (Some tb, Some ta) \<Rightarrow> tb - ta
      | _ \<Rightarrow> 0)"

section \<open>The controller\<close>

definition maxLength :: nat where
  "maxLength = 500"

text \<open>
  \<^verbatim>\<open>post.img.split('/').pop().split('.')[0]\<close>. Neither array is empty (lemma
  \<open>js_split_not_Nil\<close> below), so \<^verbatim>\<open>pop()\<close> and \<^verbatim>\<open>[0]\<close> are defined.
\<close>

definition imgId :: "string \<Rightarrow> string" where
  "imgId i = hd (js_split (CHR ''.'') (last (js_split (CHR ''/'') i)))"

text \<open>
  \<^verbatim>\<open>createPost\<close>. \<open>caller\<close> is \<^verbatim>\<open>req.user\<close>; \<open>b_postedBy\<close>, \<open>b_text\<close> and \<open>b_img\<close>
  are the fields \<^verbatim>\<open>postedBy\<close>, \<^verbatim>\<open>text\<close> and \<^verbatim>\<open>img\<close> of \<^verbatim>\<open>req.body\<close>; \<open>fresh\<close> and
  \<open>now\<close> are the id and the date that the system gives the new document.
\<close>

definition persist_new :: "Post \<Rightarrow> store \<Rightarrow> (error + Post) \<times> store" where
  "persist_new newPost s =
     (Inr newPost,
      s\<lparr>posts := posts s @ [newPost], calls := calls s @ [PostSave (post_id newPost)]\<rparr>)"

definition createPost ::
  "cloudinary \<Rightarrow> oid \<Rightarrow> time \<Rightarrow> User \<Rightarrow> string option \<Rightarrow> string option \<Rightarrow> string option
     \<Rightarrow> store \<Rightarrow> (error + Post) \<times> store" where
  "createPost cloud fresh now caller b_postedBy b_text b_img s =
     (case (b_postedBy, b_text) of
        (Some pb, Some t) \<Rightarrow>
          if pb = [] \<or> t = [] then (Inl (InvalidInput ''Please fill all the fields''), s)
          else (case User_findById pb (users s) of
                  None \<Rightarrow> (Inl (NotFound ''User not found''), s)
                | Some user \<Rightarrow>
                    if user_id user \<noteq> user_id caller
                    then (Inl (Unauthorized ''Unauthorized to create post''), s)
                    else if maxLength < length t
                    then (Inl (InvalidInput ''Text length should be less than 500 characters''), s)
                    else (case b_img of
                            Some i \<Rightarrow>
                              if i = [] then persist_new (new_Post fresh now pb t b_img) s
                              else (case upload cloud i of
                                      Inl m \<Rightarrow>
                                        (Inl (StorageError m),
                                         s\<lparr>calls := calls s @ [Upload i]\<rparr>)
                                    | Inr secure_url \<Rightarrow>
                                        persist_new (new_Post fresh now pb t (Some secure_url))
                                          (s\<lparr>calls := calls s @ [Upload i]\<rparr>))
                          | None \<Rightarrow> persist_new (new_Post fresh now pb t b_img) s))
      | _ \<Rightarrow> (Inl (InvalidInput ''Please fill all the fields''), s))"

text \<open>\<^verbatim>\<open>deletePost\<close>. \<open>i\<close> is \<^verbatim>\<open>req.params.id\<close>.\<close>

definition remove_post :: "oid \<Rightarrow> store \<Rightarrow> (error + string) \<times> store" where
  "remove_post i s =
     (Inr ''Post deleted successfully'',
      s\<lparr>posts := findByIdAndDelete i (posts s), calls := calls s @ [PostDelete i]\<rparr>)"

definition deletePost :: "cloudinary \<Rightarrow> User \<Rightarrow> oid \<Rightarrow> store \<Rightarrow> (error + string) \<times> store" where
  "deletePost cloud caller i s =
     (case Post_findById i (posts s) of
        None \<Rightarrow> (Inl (NotFound ''Post not found''), s)
      | Some post \<Rightarrow>
          if postedBy post \<noteq> user_id caller
          then (Inl (Unauthorized ''Unauthorized to delete post''), s)
          else (case img post of
                  Some url \<Rightarrow>
                    if url = [] then remove_post i s
                    else (case destroy cloud (imgId url) of
                            Inl m \<Rightarrow>
                              (Inl (StorageError m),
                               s\<lparr>calls := calls s @ [Destroy (imgId url)]\<rparr>)
                          | Inr _ \<Rightarrow>
                              remove_post i (s\<lparr>calls := calls s @ [Destroy (imgId url)]\<rparr>))
                | None \<Rightarrow> remove_post i s))"

text \<open>\<^verbatim>\<open>likeUnlikePost\<close>. \<^verbatim>\<open>$pull\<close> removes every occurrence of the value.\<close>

definition likeUnlikePost :: "User \<Rightarrow> oid \<Rightarrow> store \<Rightarrow> (error + string) \<times> store" where
  "likeUnlikePost caller postId s =
     (case Post_findById postId (posts s) of
        None \<Rightarrow> (Inl (NotFound ''Post not found''), s)
      | Some post \<Rightarrow>
          if user_id caller \<in> set (likes post)
          then (Inr ''Post unliked successfully'',
                s\<lparr>posts := updateOne postId
                              (\<lambda>p. p\<lparr>likes := removeAll (user_id caller) (likes p)\<rparr>) (posts s),
                  calls := calls s @ [PostUpdate postId]\<rparr>)
          else (Inr ''Post liked successfully'',
                s\<lparr>posts := save (post\<lparr>likes := likes post @ [user_id caller]\<rparr>) (posts s),
                  calls := calls s @ [PostSave (post_id post)]\<rparr>))"

text \<open>
  \<^verbatim>\<open>replyToPost\<close>. The response is the plain object \<^verbatim>\<open>reply\<close> built from the
  request; what is stored is its sub-document.
\<close>

definition replyToPost ::
  "time \<Rightarrow> User \<Rightarrow> oid \<Rightarrow> string option \<Rightarrow> store \<Rightarrow> (error + Reply) \<times> store" where
  "replyToPost now caller postId b_text s =
     (case b_text of
        None \<Rightarrow> (Inl (InvalidInput ''Text cannot be empty''), s)
      | Some text \<Rightarrow>
          if text = [] then (Inl (InvalidInput ''Text cannot be empty''), s)
          else (case Post_findById postId (posts s) of
                  None \<Rightarrow> (Inl (NotFound ''Post not found''), s)
                | Some post \<Rightarrow>
                    let reply = \<lparr>userId = user_id caller, reply_text = text,
                                 userProfilePic = profilePicture caller,
                                 username = user_name caller, reply_createdAt = None\<rparr>;
                        unshifted = cast_Reply now reply # replies post;
                        resorted = js_sort compare_replies unshifted
                    in (Inr reply,
                        s\<lparr>posts := save (post\<lparr>replies := resorted\<rparr>) (posts s),
                          calls := calls s @ [PostSave (post_id post)]\<rparr>)))"

text \<open>\<^verbatim>\<open>getFeedPosts\<close>: reads only.\<close>

definition getFeedPosts :: "User \<Rightarrow> store \<Rightarrow> error + Post list" where
  "getFeedPosts caller s =
     (case User_findById (user_id caller) (users s) of
        None \<Rightarrow> Inl (NotFound ''User not found'')
      | Some user \<Rightarrow> Inr (Post_find_in (following user) (posts s)))"

section \<open>Two requests at once\<close>

text \<open>
  \<^verbatim>\<open>likeUnlikePost\<close> awaits twice: the read \<^verbatim>\<open>Post.findById\<close> (line 105), and the
  write (line 117 or 123) that follows the test of line 111 on the document read.
  Another request may run between the two. \<open>like_read\<close> is the first half and
  \<open>like_write\<close> the second, on the document that was read. \<^verbatim>\<open>post.save()\<close> sends
  the changes made to the loaded document: the \<^verbatim>\<open>push\<close> on \<^verbatim>\<open>likes\<close> reaches the
  store as a \<^verbatim>\<open>$push\<close> on the stored document.
\<close>

definition like_read :: "oid \<Rightarrow> store \<Rightarrow> Post option" where
  "like_read postId s = Post_findById postId (posts s)"

definition like_write ::
  "User \<Rightarrow> oid \<Rightarrow> Post option \<Rightarrow> store \<Rightarrow> (error + string) \<times> store" where
  "like_write caller postId loaded s =
     (case loaded of
        None \<Rightarrow> (Inl (NotFound ''Post not found''), s)
      | Some post \<Rightarrow>
          if user_id caller \<in> set (likes post)
          then (Inr ''Post unliked successfully'',
                s\<lparr>posts := updateOne postId
                              (\<lambda>p. p\<lparr>likes := removeAll (user_id caller) (likes p)\<rparr>) (posts s),
                  calls := calls s @ [PostUpdate postId]\<rparr>)
          else (Inr ''Post liked successfully'',
                s\<lparr>posts := updateOne (post_id post)
                              (\<lambda>p. p\<lparr>likes := likes p @ [user_id caller]\<rparr>) (posts s),
                  calls := calls s @ [PostSave (post_id post)]\<rparr>))"

text \<open>
  Two requests on one post, of the callers \<open>a\<close> and \<open>b\<close>, whose reads both come
  before the writes.
\<close>

definition likeUnlikePost_interleaved ::
  "User \<Rightarrow> User \<Rightarrow> oid \<Rightarrow> store \<Rightarrow> (error + string) \<times> (error + string) \<times> store" where
  "likeUnlikePost_interleaved a b postId s =
     (let loaded_a = like_read postId s;
          loaded_b = like_read postId s;
          (res_a, s1) = like_write a postId loaded_a s;
          (res_b, s2) = like_write b postId loaded_b s1
      in (res_a, res_b, s2))"

section \<open>Predicates of the specification\<close>

text \<open>Every reply of the sequence carries its \<open>createdAt\<close>.\<close>

definition stamped :: "Reply list \<Rightarrow> bool" where
  "stamped rs = list_all (\<lambda>r. reply_createdAt r \<noteq> None) rs"

text \<open>Sorted descending by \<open>createdAt\<close>: each reply is at least as new as all after it.\<close>

definition newer_or_same :: "Reply \<Rightarrow> Reply \<Rightarrow> bool" where
  "newer_or_same a b =
     (case (reply_createdAt a, reply_createdAt b) of
        (Some ta, Some tb) \<Rightarrow> tb \<le> ta
      | _ \<Rightarrow> False)"

definition newest_first :: "Reply list \<Rightarrow> bool" where
  "newest_first rs = sorted_wrt newer_or_same rs"

text \<open>
  The blob store takes the image of a create request: there is none to upload
  (\<^verbatim>\<open>img\<close> undefined or empty), or \<^verbatim>\<open>upload\<close> returns.
\<close>

fun upload_returns :: "cloudinary \<Rightarrow> string option \<Rightarrow> bool" where
  "upload_returns cloud None = True"
| "upload_returns cloud (Some i) = (i = [] \<or> \<not> isl (upload cloud i))"

text \<open>
  The plain object that \<^verbatim>\<open>replyToPost\<close> builds from the request,
  \<^verbatim>\<open>{ userId, text, userProfilePic, username }\<close>: it has no \<^verbatim>\<open>createdAt\<close>.
\<close>

definition reply_of :: "User \<Rightarrow> string \<Rightarrow> Reply" where
  "reply_of caller t =
     \<lparr>userId = user_id caller, reply_text = t, userProfilePic = profilePicture caller,
      username = user_name caller, reply_createdAt = None\<rparr>"



text \<open>The text of a create request is missing, empty, or longer than 500 characters.\<close>

fun text_rejected :: "string option \<Rightarrow> bool" where
  "text_rejected None = True"
| "text_rejected (Some t) = (t = [] \<or> 500 < length t)"

section \<open>A small instance\<close>

definition alice :: User where
  "alice = \<lparr>user_id = ''u1'', user_name = ''alice'', profilePicture = ''alice.png'',
            following = [''u2'']\<rparr>"

definition bob :: User where
  "bob = \<lparr>user_id = ''u2'', user_name = ''bob'', profilePicture = [], following = []\<rparr>"

definition post1 :: Post where
  "post1 = \<lparr>post_id = ''p1'', postedBy = ''u1'', post_text = ''hello'',
            img = Some ''https://res.cloudinary.com/demo/image/upload/v1/abc123.png'',
            likes = [], replies = [], createdAt = 10\<rparr>"

definition post2 :: Post where
  "post2 = \<lparr>post_id = ''p2'', postedBy = ''u2'', post_text = ''first'', img = None,
            likes = [''u1''], replies = [], createdAt = 5\<rparr>"

definition post3 :: Post where
  "post3 = \<lparr>post_id = ''p3'', postedBy = ''u2'', post_text = ''second'', img = None,
            likes = [], replies = [], createdAt = 20\<rparr>"

definition store0 :: store where
  "store0 = \<lparr>users = [alice, bob], posts = [post1, post2, post3], calls = []\<rparr>"




text \<open>A blob store that answers, and one whose every call throws.\<close>

definition cloud_up :: cloudinary where
  "cloud_up = \<lparr>upload = (\<lambda>i. Inr (''https://res.cloudinary.com/demo/'' @ i)),
               destroy = (\<lambda>_. Inr ())\<rparr>"

definition cloud_down :: cloudinary where
  "cloud_down = \<lparr>upload = (\<lambda>_. Inl ''unavailable''), destroy = (\<lambda>_. Inl ''unavailable'')\<rparr>"

section \<open>Lemmas on the primitives\<close>







lemma findById_user_id: "User_findById i us = Some u \<Longrightarrow> user_id u = i"
  unfolding User_findById_def by (induction us) (auto split: if_splits)

lemma findById_post_id: "Post_findById i ps = Some p \<Longrightarrow> post_id p = i"
  unfolding Post_findById_def by (induction ps) (auto split: if_splits)

lemma findById_updateOne:
  "Post_findById i ps = Some p \<Longrightarrow> post_id (f p) = i \<Longrightarrow>
   Post_findById i (updateOne i f ps) = Some (f p)"
  unfolding Post_findById_def by (induction ps) (auto split: if_splits)

lemma updateOne_twice:
  "Post_findById i ps = Some p \<Longrightarrow> post_id (f p) = i \<Longrightarrow>
   updateOne i g (updateOne i f ps) = updateOne i (\<lambda>q. g (f q)) ps"
  unfolding Post_findById_def by (induction ps) (auto split: if_splits)

lemma updateOne_same:
  "Post_findById i ps = Some p \<Longrightarrow> f p = p \<Longrightarrow> updateOne i f ps = ps"
  unfolding Post_findById_def by (induction ps) (auto split: if_splits)

lemma findById_save:
  "Post_findById i ps = Some p \<Longrightarrow> post_id q = i \<Longrightarrow>
   Post_findById i (save q ps) = Some q"
  unfolding save_def using findById_updateOne [of i ps p "\<lambda>_. q"] by simp

lemma updateOne_cong_found:
  "Post_findById i ps = Some p \<Longrightarrow> f p = g p \<Longrightarrow> updateOne i f ps = updateOne i g ps"
  unfolding Post_findById_def by (induction ps) (auto split: if_splits)






subsection \<open>The sort\<close>

lemma mset_insort_by: "mset (insort_by cmp x xs) = add_mset x (mset xs)"
  by (induction xs) auto

lemma mset_js_sort: "mset (js_sort cmp xs) = mset xs"
  unfolding js_sort_def by (induction xs) (auto simp: mset_insort_by)

lemma set_insort_by: "set (insort_by cmp x xs) = insert x (set xs)"
  by (induction xs) auto

lemma set_js_sort: "set (js_sort cmp xs) = set xs"
  unfolding js_sort_def by (induction xs) (auto simp: set_insort_by)

text \<open>
  On a set \<open>A\<close> of elements where the comparator decides a transitive relation \<open>R\<close>,
  inserting keeps a list ordered by \<open>R\<close>, and so the sort orders by \<open>R\<close>.
\<close>

lemma sorted_wrt_insort_by:
  assumes "sorted_wrt R xs" and "set xs \<subseteq> A" and "x \<in> A"
    and le: "\<And>a b. a \<in> A \<Longrightarrow> b \<in> A \<Longrightarrow> cmp a b \<le> 0 \<Longrightarrow> R a b"
    and gt: "\<And>a b. a \<in> A \<Longrightarrow> b \<in> A \<Longrightarrow> \<not> cmp a b \<le> 0 \<Longrightarrow> R b a"
    and tr: "\<And>a b c. a \<in> A \<Longrightarrow> b \<in> A \<Longrightarrow> c \<in> A \<Longrightarrow> R a b \<Longrightarrow> R b c \<Longrightarrow> R a c"
  shows "sorted_wrt R (insort_by cmp x xs)"
  using assms(1,2)
proof (induction xs)
  case Nil
  then show ?case by simp
next
  case (Cons y ys)
  show ?case
  proof (cases "cmp x y \<le> 0")
    case True
    have xy: "R x y" using le True Cons.prems(2) assms(3) by simp
    have "R x z" if "z \<in> set ys" for z
    proof -
      have "R y z" using Cons.prems(1) that by simp
      then show ?thesis using tr [of x y z] xy Cons.prems(2) assms(3) that by auto
    qed
    then show ?thesis using True xy Cons.prems(1) by simp
  next
    case False
    have yx: "R y x" using gt False Cons.prems(2) assms(3) by simp
    have "sorted_wrt R (insort_by cmp x ys)" using Cons by simp
    then show ?thesis using False yx Cons.prems(1) by (auto simp: set_insort_by)
  qed
qed

lemma sorted_wrt_js_sort:
  assumes "set xs \<subseteq> A"
    and le: "\<And>a b. a \<in> A \<Longrightarrow> b \<in> A \<Longrightarrow> cmp a b \<le> 0 \<Longrightarrow> R a b"
    and gt: "\<And>a b. a \<in> A \<Longrightarrow> b \<in> A \<Longrightarrow> \<not> cmp a b \<le> 0 \<Longrightarrow> R b a"
    and tr: "\<And>a b c. a \<in> A \<Longrightarrow> b \<in> A \<Longrightarrow> c \<in> A \<Longrightarrow> R a b \<Longrightarrow> R b c \<Longrightarrow> R a c"
  shows "sorted_wrt R (js_sort cmp xs)"
  using assms(1)
proof (induction xs)
  case Nil
  then show ?case by (simp add: js_sort_def)
next
  case (Cons x xs)
  have ih: "sorted_wrt R (js_sort cmp xs)" using Cons by simp
  have sub: "set (js_sort cmp xs) \<subseteq> A" using Cons.prems by (simp add: set_js_sort)
  have "sorted_wrt R (insort_by cmp x (js_sort cmp xs))"
    using ih sub _ le gt tr
  proof (rule sorted_wrt_insort_by)
    show "x \<in> A" using Cons.prems by simp
  qed
  then show ?case by (simp add: js_sort_def)
qed

lemma Post_find_in_sorted:
  "sorted_wrt (\<lambda>a b. createdAt b \<le> createdAt a) (Post_find_in owners ps)"
  unfolding Post_find_in_def
  by (rule sorted_wrt_js_sort [where A = UNIV]) (auto simp: compare_posts_def)

lemma newest_first_js_sort:
  assumes "stamped rs"
  shows "newest_first (js_sort compare_replies rs)"
  unfolding newest_first_def
proof (rule sorted_wrt_js_sort [where A = "{r. reply_createdAt r \<noteq> None}"])
  show "set rs \<subseteq> {r. reply_createdAt r \<noteq> None}"
    using assms by (auto simp: stamped_def list_all_iff)
qed (auto simp: compare_replies_def newer_or_same_def)

lemma stamped_js_sort: "stamped (js_sort cmp rs) = stamped rs"
  by (simp add: stamped_def list_all_iff set_js_sort)

lemma stamps_sorted:
  assumes "stamped rs" and "newest_first rs"
  shows "map reply_createdAt rs = map Some (map (the \<circ> reply_createdAt) rs)
       \<and> sorted (rev (map (the \<circ> reply_createdAt) rs))"
proof -
  have 1: "map reply_createdAt rs = map Some (map (the \<circ> reply_createdAt) rs)"
    using assms(1) by (auto simp: stamped_def list_all_iff)
  have "sorted_wrt (\<lambda>a b. (the \<circ> reply_createdAt) b \<le> (the \<circ> reply_createdAt) a) rs"
    using assms(2) unfolding newest_first_def
    by (rule sorted_wrt_mono_rel [rotated])
       (auto simp: newer_or_same_def split: option.splits)
  then have "sorted (rev (map (the \<circ> reply_createdAt) rs))"
    by (simp add: sorted_wrt_rev sorted_wrt_map flip: rev_map)
  with 1 show ?thesis by simp
qed

section \<open>Lemmas on the controller\<close>

text \<open>\<^verbatim>\<open>createPost\<close> after the two checks of presence and the lookup of the user.\<close>

lemma createPost_checked:
  assumes "User_findById pb (users s) = Some user" and "pb \<noteq> []" and "t \<noteq> []"
  shows "createPost cloud fresh now caller (Some pb) (Some t) b_img s =
          (if user_id user \<noteq> user_id caller
           then (Inl (Unauthorized ''Unauthorized to create post''), s)
           else if maxLength < length t
           then (Inl (InvalidInput ''Text length should be less than 500 characters''), s)
           else (case b_img of
                   Some i \<Rightarrow>
                     if i = [] then persist_new (new_Post fresh now pb t b_img) s
                     else (case upload cloud i of
                             Inl m \<Rightarrow>
                               (Inl (StorageError m), s\<lparr>calls := calls s @ [Upload i]\<rparr>)
                           | Inr secure_url \<Rightarrow>
                               persist_new (new_Post fresh now pb t (Some secure_url))
                                 (s\<lparr>calls := calls s @ [Upload i]\<rparr>))
                 | None \<Rightarrow> persist_new (new_Post fresh now pb t b_img) s))"
  using assms by (simp add: createPost_def)

text \<open>Run without another request in between, the two halves are \<^verbatim>\<open>likeUnlikePost\<close>.\<close>

lemma likeUnlikePost_halves:
  "like_write caller postId (like_read postId s) s = likeUnlikePost caller postId s"
proof (cases "Post_findById postId (posts s)")
  case None
  then show ?thesis by (simp add: like_write_def like_read_def likeUnlikePost_def)
next
  case (Some post)
  have pid: "post_id post = postId" using Some by (rule findById_post_id)
  have "updateOne postId (\<lambda>p. p\<lparr>likes := likes p @ [user_id caller]\<rparr>) (posts s)
          = updateOne postId (\<lambda>_. post\<lparr>likes := likes post @ [user_id caller]\<rparr>) (posts s)"
    using Some by (rule updateOne_cong_found) simp
  then have "updateOne postId (\<lambda>p. p\<lparr>likes := likes p @ [user_id caller]\<rparr>) (posts s)
          = save (post\<lparr>likes := likes post @ [user_id caller]\<rparr>) (posts s)"
    by (simp add: save_def pid)
  then show ?thesis using Some pid
    by (simp add: like_write_def like_read_def likeUnlikePost_def)
qed

text \<open>
  A call that runs alone on an existing post leaves the caller in \<open>likes\<close> at most
  once, removes a caller who was a member, and keeps \<open>likes\<close> free of duplicates.
\<close>

lemma likeUnlikePost_alone:
  assumes found: "Post_findById postId (posts s) = Some post"
  shows "\<exists>msg post'. fst (likeUnlikePost caller postId s) = Inr msg
       \<and> Post_findById postId (posts (snd (likeUnlikePost caller postId s))) = Some post'
       \<and> count_list (likes post') (user_id caller) \<le> 1
       \<and> (user_id caller \<in> set (likes post) \<longrightarrow> user_id caller \<notin> set (likes post'))
       \<and> (distinct (likes post) \<longrightarrow> distinct (likes post'))"
proof (cases "user_id caller \<in> set (likes post)")
  case True
  let ?f = "\<lambda>p. p\<lparr>likes := removeAll (user_id caller) (likes p)\<rparr>"
  have "Post_findById postId (updateOne postId ?f (posts s)) = Some (?f post)"
    using found findById_post_id [OF found] by (intro findById_updateOne) simp_all
  then show ?thesis using found True
    by (simp add: likeUnlikePost_def distinct_removeAll count_list_0_iff)
next
  case False
  let ?q = "post\<lparr>likes := likes post @ [user_id caller]\<rparr>"
  have "Post_findById postId (save ?q (posts s)) = Some ?q"
    using found findById_post_id [OF found] by (intro findById_save) simp_all
  then show ?thesis using found False
    by (simp add: likeUnlikePost_def count_list_0_iff)
qed

text \<open>One reply on an existing post, as an equation, and the post it leaves in the store.\<close>

lemma replyToPost_found:
  assumes "Post_findById postId (posts s) = Some post" and "t \<noteq> []"
  shows "replyToPost now caller postId (Some t) s =
           (Inr (reply_of caller t),
            s\<lparr>posts := save (post\<lparr>replies :=
                   js_sort compare_replies (cast_Reply now (reply_of caller t) # replies post)\<rparr>)
                 (posts s),
              calls := calls s @ [PostSave postId]\<rparr>)"
  using assms findById_post_id [OF assms(1)]
  by (simp add: replyToPost_def reply_of_def Let_def)

lemma replyToPost_stored:
  assumes "Post_findById postId (posts s) = Some post" and "t \<noteq> []"
  shows "Post_findById postId (posts (snd (replyToPost now caller postId (Some t) s)))
          = Some (post\<lparr>replies :=
               js_sort compare_replies (cast_Reply now (reply_of caller t) # replies post)\<rparr>)"
  using assms findById_post_id [OF assms(1)]
  by (simp add: replyToPost_found findById_save)

section \<open>Replies\<close>

text \<open>
  C1. After \<^verbatim>\<open>replyToPost\<close> completes on an existing post whose stored replies carry
  their \<open>createdAt\<close>, the reply is stored with the others and the sequence is sorted
  descending by \<open>createdAt\<close>. And three replies appended one after the other, at
  times that are \<open>t1 < t2 < t3\<close> in any order, leave the sequence in the descending
  order of all its times: \<open>[t3, t2, t1]\<close> on a post that had no replies.
\<close>

theorem replyToPost_newest_first:
  "(Post_findById postId (posts s) = Some post \<and> stamped (replies post) \<and> truthy b_text
      \<longrightarrow> (\<exists>reply post'.
             fst (replyToPost now caller postId b_text s) = Inr reply
           \<and> Post_findById postId (posts (snd (replyToPost now caller postId b_text s)))
               = Some post'
           \<and> mset (replies post') = add_mset (cast_Reply now reply) (mset (replies post))
           \<and> stamped (replies post')
           \<and> newest_first (replies post')))
 \<and> (Post_findById i (posts s0) = Some post0
      \<and> map reply_createdAt (replies post0) = map Some olds
      \<and> t1 < t2 \<and> t2 < t3 \<and> mset [n1, n2, n3] = mset [t1, t2, t3]
      \<and> x1 \<noteq> [] \<and> x2 \<noteq> [] \<and> x3 \<noteq> []
      \<and> snd (replyToPost n1 c1 i (Some x1) s0) = s1
      \<and> snd (replyToPost n2 c2 i (Some x2) s1) = s2
      \<and> snd (replyToPost n3 c3 i (Some x3) s2) = s3
      \<longrightarrow> map_option (map reply_createdAt \<circ> replies) (Post_findById i (posts s3))
            = Some (map Some (rev (sort (t1 # t2 # t3 # olds))))
        \<and> (olds = []
             \<longrightarrow> map_option (map reply_createdAt \<circ> replies) (Post_findById i (posts s3))
                   = Some [Some t3, Some t2, Some t1]))"
proof (intro conjI impI)
  assume a: "Post_findById postId (posts s) = Some post \<and> stamped (replies post) \<and> truthy b_text"
  then obtain t where t: "b_text = Some t" "t \<noteq> []" by (cases b_text) auto
  let ?new = "cast_Reply now (reply_of caller t)"
  let ?post' = "post\<lparr>replies := js_sort compare_replies (?new # replies post)\<rparr>"
  have st: "stamped (?new # replies post)"
    using a by (simp add: stamped_def cast_Reply_def)
  have "fst (replyToPost now caller postId b_text s) = Inr (reply_of caller t)"
    using a t by (simp add: replyToPost_found)
  moreover have "Post_findById postId (posts (snd (replyToPost now caller postId b_text s)))
                  = Some ?post'"
    using a t by (simp add: replyToPost_stored)
  moreover have "mset (replies ?post') = add_mset ?new (mset (replies post))"
    by (simp add: mset_js_sort)
  moreover have "stamped (replies ?post')" using st by (simp add: stamped_js_sort)
  moreover have "newest_first (replies ?post')" using st by (simp add: newest_first_js_sort)
  ultimately show "\<exists>reply post'.
             fst (replyToPost now caller postId b_text s) = Inr reply
           \<and> Post_findById postId (posts (snd (replyToPost now caller postId b_text s)))
               = Some post'
           \<and> mset (replies post') = add_mset (cast_Reply now reply) (mset (replies post))
           \<and> stamped (replies post')
           \<and> newest_first (replies post')"
    by blast
next
  assume b: "Post_findById i (posts s0) = Some post0
      \<and> map reply_createdAt (replies post0) = map Some olds
      \<and> t1 < t2 \<and> t2 < t3 \<and> mset [n1, n2, n3] = mset [t1, t2, t3]
      \<and> x1 \<noteq> [] \<and> x2 \<noteq> [] \<and> x3 \<noteq> []
      \<and> snd (replyToPost n1 c1 i (Some x1) s0) = s1
      \<and> snd (replyToPost n2 c2 i (Some x2) s1) = s2
      \<and> snd (replyToPost n3 c3 i (Some x3) s2) = s3"
  let ?stamp = "the \<circ> reply_createdAt"
  let ?r1 = "cast_Reply n1 (reply_of c1 x1)"
  let ?r2 = "cast_Reply n2 (reply_of c2 x2)"
  let ?r3 = "cast_Reply n3 (reply_of c3 x3)"
  let ?rs1 = "js_sort compare_replies (?r1 # replies post0)"
  let ?rs2 = "js_sort compare_replies (?r2 # ?rs1)"
  let ?rs3 = "js_sort compare_replies (?r3 # ?rs2)"
  have f1: "Post_findById i (posts s1) = Some (post0\<lparr>replies := ?rs1\<rparr>)"
    using b replyToPost_stored [of i s0 post0 x1 n1 c1] by auto
  have f2: "Post_findById i (posts s2) = Some (post0\<lparr>replies := ?rs2\<rparr>)"
    using b replyToPost_stored [OF f1, of x2 n2 c2] by auto
  have f3: "Post_findById i (posts s3) = Some (post0\<lparr>replies := ?rs3\<rparr>)"
    using b replyToPost_stored [OF f2, of x3 n3 c3] by auto
  have "map ?stamp (replies post0) = map (the \<circ> Some) olds"
    using b by (metis map_map)
  then have olds: "map ?stamp (replies post0) = olds" by simp
  have "set (map reply_createdAt (replies post0)) \<subseteq> range Some" using b by auto
  then have st0: "stamped (replies post0)"
    by (auto simp: stamped_def list_all_iff)
  have st: "stamped (?r3 # ?rs2)"
    using st0 by (simp add: stamped_def list_all_iff set_js_sort cast_Reply_def)
  have st3: "stamped ?rs3" using st by (simp add: stamped_js_sort)
  have nf3: "newest_first ?rs3" using st by (rule newest_first_js_sort)
  let ?ts = "map ?stamp ?rs3"
  have "mset ?rs3 = mset (?r3 # ?r2 # ?r1 # replies post0)" by (simp add: mset_js_sort)
  then have "mset ?ts = mset (map ?stamp (?r3 # ?r2 # ?r1 # replies post0))"
    by (metis mset_map)
  then have "mset ?ts = mset [n1, n2, n3] + mset olds"
    by (simp add: cast_Reply_def olds add_mset_commute)
  also have "\<dots> = mset [t1, t2, t3] + mset olds"
    using b by (simp only:)
  finally have "mset (rev ?ts) = mset (t1 # t2 # t3 # olds)"
    by simp
  moreover have "sorted (rev ?ts)" using stamps_sorted [OF st3 nf3] by simp
  ultimately have "sort (t1 # t2 # t3 # olds) = rev ?ts"
    by (rule properties_for_sort)
  then have "?ts = rev (sort (t1 # t2 # t3 # olds))" by simp
  then have ts: "map reply_createdAt ?rs3 = map Some (rev (sort (t1 # t2 # t3 # olds)))"
    using stamps_sorted [OF st3 nf3] by simp
  then show "map_option (map reply_createdAt \<circ> replies) (Post_findById i (posts s3))
            = Some (map Some (rev (sort (t1 # t2 # t3 # olds))))"
    using f3 by simp
  show "map_option (map reply_createdAt \<circ> replies) (Post_findById i (posts s3))
            = Some [Some t3, Some t2, Some t1]" if "olds = []"
    using f3 ts that b by simp
qed

text \<open>
  On the instance: bob replies to the first post; and replies at the times 2, 3 and 1,
  in this order, end as \<open>[3, 2, 1]\<close>.
\<close>

theorem replyToPost_newest_first_witness:
  "Post_findById ''p1'' (posts store0) = Some post1 \<and> stamped (replies post1)
   \<and> truthy (Some ''hi'') \<and> map reply_createdAt (replies post1) = map Some []
   \<and> (1::int) < 2 \<and> (2::int) < 3 \<and> mset [2, 3, 1] = mset [1, 2, 3::int]
   \<and> (\<exists>reply post'.
         fst (replyToPost 1000 bob ''p1'' (Some ''hi'') store0) = Inr reply
       \<and> Post_findById ''p1'' (posts (snd (replyToPost 1000 bob ''p1'' (Some ''hi'') store0)))
           = Some post'
       \<and> mset (replies post') = add_mset (cast_Reply 1000 reply) (mset (replies post1))
       \<and> stamped (replies post')
       \<and> newest_first (replies post'))
   \<and> map_option (map reply_createdAt \<circ> replies)
        (Post_findById ''p1''
          (posts (snd (replyToPost 1 bob ''p1'' (Some ''c'')
                   (snd (replyToPost 3 alice ''p1'' (Some ''b'')
                     (snd (replyToPost 2 bob ''p1'' (Some ''a'') store0))))))))
      = Some [Some 3, Some 2, Some 1]"
proof -
  have f: "Post_findById ''p1'' (posts store0) = Some post1"
    by (simp add: Post_findById_def store0_def post1_def)
  have e: "map reply_createdAt (replies post1) = map Some []" by (simp add: post1_def)
  have st: "stamped (replies post1)" by (simp add: post1_def stamped_def)
  have p: "mset [2, 3, 1] = mset [1, 2, 3::int]" by (simp add: add_mset_commute)
  show ?thesis
    using f e st p
      replyToPost_newest_first [of "''p1''" store0 post1 "Some ''hi''" 1000 bob
        "''p1''" store0 post1 "[]" 1 2 3 2 3 1 "''a''" "''b''" "''c''" bob
        "snd (replyToPost 2 bob ''p1'' (Some ''a'') store0)" alice
        "snd (replyToPost 3 alice ''p1'' (Some ''b'')
               (snd (replyToPost 2 bob ''p1'' (Some ''a'') store0)))" bob
        "snd (replyToPost 1 bob ''p1'' (Some ''c'')
               (snd (replyToPost 3 alice ''p1'' (Some ''b'')
                 (snd (replyToPost 2 bob ''p1'' (Some ''a'') store0)))))"]
    by simp
qed

text \<open>
  C9 (as amended). For every reply request with non-empty text on an existing post,
  \<^verbatim>\<open>replyToPost\<close> answers with the object built from the request: its \<open>userId\<close>,
  \<open>username\<close> and \<open>userProfilePic\<close> are those of the caller and its text is the text
  of the request. The answer has no \<open>createdAt\<close>: the timestamp is on the reply
  that is stored in the post.
\<close>

theorem replyToPost_response:
  assumes "Post_findById postId (posts s) = Some post" and "t \<noteq> []"
  shows "fst (replyToPost now caller postId (Some t) s)
           = Inr \<lparr>userId = user_id caller, reply_text = t,
                  userProfilePic = profilePicture caller, username = user_name caller,
                  reply_createdAt = None\<rparr>
       \<and> (\<exists>post'. Post_findById postId (posts (snd (replyToPost now caller postId (Some t) s)))
                     = Some post'
                 \<and> \<lparr>userId = user_id caller, reply_text = t,
                     userProfilePic = profilePicture caller, username = user_name caller,
                     reply_createdAt = Some now\<rparr> \<in> set (replies post'))"
proof -
  have "fst (replyToPost now caller postId (Some t) s) = Inr (reply_of caller t)"
    using assms by (simp add: replyToPost_found)
  moreover have "cast_Reply now (reply_of caller t)
      \<in> set (replies (post\<lparr>replies :=
               js_sort compare_replies (cast_Reply now (reply_of caller t) # replies post)\<rparr>))"
    by (simp add: set_js_sort)
  ultimately show ?thesis
    using replyToPost_stored [OF assms, of now caller]
    by (simp add: cast_Reply_def reply_of_def)
qed

theorem replyToPost_response_witness:
  "Post_findById ''p2'' (posts store0) = Some post2 \<and> ''welcome'' \<noteq> []
   \<and> fst (replyToPost 77 alice ''p2'' (Some ''welcome'') store0)
       = Inr \<lparr>userId = ''u1'', reply_text = ''welcome'', userProfilePic = ''alice.png'',
              username = ''alice'', reply_createdAt = None\<rparr>"
proof -
  have f: "Post_findById ''p2'' (posts store0) = Some post2"
    by (simp add: Post_findById_def store0_def post1_def post2_def)
  have n: "''welcome'' \<noteq> []" by simp
  show ?thesis
    using f replyToPost_response [OF f n, of 77 alice] by (simp add: alice_def)
qed

text \<open>
  The claim as written fails: bob's reply \<^verbatim>\<open>hi\<close> to the first post, inserted at time
  1000, comes back without a \<open>createdAt\<close>.
\<close>

theorem replyToPost_response_counterexample:
  "Post_findById ''p1'' (posts store0) = Some post1
   \<and> fst (replyToPost 1000 bob ''p1'' (Some ''hi'') store0)
       = Inr \<lparr>userId = ''u2'', reply_text = ''hi'', userProfilePic = [],
              username = ''bob'', reply_createdAt = None\<rparr>
   \<and> reply_createdAt \<lparr>userId = ''u2'', reply_text = ''hi'', userProfilePic = [],
                       username = ''bob'', reply_createdAt = None\<rparr> \<noteq> Some 1000"
  by (simp add: Post_findById_def store0_def post1_def replyToPost_def bob_def Let_def)

section \<open>Likes\<close>

text \<open>
  C2. When the caller has not liked the post, a call of \<^verbatim>\<open>likeUnlikePost\<close> likes it,
  a second call right after unlikes it, and the post's \<open>likes\<close> (the whole Post
  collection, in fact) are then what they were before the like.
\<close>

theorem like_then_unlike:
  assumes found: "Post_findById postId (posts s) = Some post"
      and fresh: "user_id caller \<notin> set (likes post)"
  shows "fst (likeUnlikePost caller postId s) = Inr ''Post liked successfully''
       \<and> fst (likeUnlikePost caller postId (snd (likeUnlikePost caller postId s)))
           = Inr ''Post unliked successfully''
       \<and> posts (snd (likeUnlikePost caller postId (snd (likeUnlikePost caller postId s))))
           = posts s
       \<and> map_option likes (Post_findById postId
            (posts (snd (likeUnlikePost caller postId (snd (likeUnlikePost caller postId s))))))
           = Some (likes post)"
proof -
  let ?u = "user_id caller"
  let ?liked = "post\<lparr>likes := likes post @ [?u]\<rparr>"
  let ?s1 = "snd (likeUnlikePost caller postId s)"
  let ?s2 = "snd (likeUnlikePost caller postId ?s1)"
  have pid: "post_id post = postId" using found by (rule findById_post_id)
  have r1: "fst (likeUnlikePost caller postId s) = Inr ''Post liked successfully''"
    using found fresh by (simp add: likeUnlikePost_def)
  have s1: "posts ?s1 = save ?liked (posts s)"
    using found fresh by (simp add: likeUnlikePost_def)
  have found1: "Post_findById postId (posts ?s1) = Some ?liked"
    unfolding s1 using found pid by (simp add: findById_save)
  have r2: "fst (likeUnlikePost caller postId ?s1) = Inr ''Post unliked successfully''"
    using found1 by (simp add: likeUnlikePost_def)
  have "posts ?s2 = updateOne postId (\<lambda>p. p\<lparr>likes := removeAll ?u (likes p)\<rparr>) (posts ?s1)"
    using found1 by (simp add: likeUnlikePost_def)
  also have "\<dots> = updateOne postId (\<lambda>q. ?liked\<lparr>likes := removeAll ?u (likes ?liked)\<rparr>) (posts s)"
    unfolding s1 save_def pid
    using updateOne_twice [OF found, of "\<lambda>_. ?liked"] pid by simp
  also have "\<dots> = posts s"
    using found fresh by (intro updateOne_same [where p = post]) simp_all
  finally have s2: "posts ?s2 = posts s" .
  show ?thesis using r1 r2 s2 found by simp
qed

theorem like_then_unlike_witness:
  "Post_findById ''p2'' (posts store0) = Some post2 \<and> user_id bob \<notin> set (likes post2)
   \<and> map_option likes (Post_findById ''p2''
        (posts (snd (likeUnlikePost bob ''p2'' store0)))) = Some [''u1'', ''u2'']
   \<and> map_option likes (Post_findById ''p2''
        (posts (snd (likeUnlikePost bob ''p2'' (snd (likeUnlikePost bob ''p2'' store0))))))
       = Some [''u1'']"
proof -
  have f: "Post_findById ''p2'' (posts store0) = Some post2"
    by (simp add: Post_findById_def store0_def post1_def post2_def)
  have n: "user_id bob \<notin> set (likes post2)" by (simp add: bob_def post2_def)
  have mid: "map_option likes (Post_findById ''p2''
        (posts (snd (likeUnlikePost bob ''p2'' store0)))) = Some [''u1'', ''u2'']"
    by (simp add: likeUnlikePost_def Post_findById_def store0_def post1_def post2_def
          bob_def save_def)
  show ?thesis
    using f n mid like_then_unlike [OF f n] by (simp add: post2_def)
qed

text \<open>
  C3. The claim is a post-condition on the store whatever the order in which requests
  reach it. \<^verbatim>\<open>likeUnlikePost\<close> does not keep it: when two requests of one user on a
  post the user has not liked both read before either writes, both find the user
  absent and both push, and the stored \<open>likes\<close> hold the user twice. The unlike
  branch goes through the atomic \<^verbatim>\<open>updateOne\<close>; the like branch has no atomic
  counterpart. On the instance, with bob liking the first post twice:
\<close>

theorem likeUnlikePost_interleaved_duplicate:
  "likeUnlikePost_interleaved bob bob ''p1'' store0
     = (Inr ''Post liked successfully'', Inr ''Post liked successfully'',
        store0\<lparr>posts := [post1\<lparr>likes := [''u2'', ''u2'']\<rparr>, post2, post3],
               calls := [PostSave ''p1'', PostSave ''p1'']\<rparr>)
   \<and> count_list [''u2'', ''u2''] (user_id bob) = 2"
  by (simp add: likeUnlikePost_interleaved_def like_read_def like_write_def Post_findById_def
        store0_def post1_def bob_def)

section \<open>Creating a post\<close>

text \<open>
  C4 (as amended). For a create request whose \<open>postedBy\<close> is present, resolves to an
  existing user and is the caller: \<^verbatim>\<open>createPost\<close> fails with \<open>InvalidInput\<close> if and
  only if the text is missing, empty, or longer than 500 characters; on that failure
  nothing is persisted and no call is issued to the blob store; and a text of exactly
  500 characters succeeds when there is no image to upload or the upload returns.
\<close>

theorem createPost_text_limit:
  assumes "pb \<noteq> []" and "User_findById pb (users s) = Some user"
      and "user_id caller = pb"
  shows "((\<exists>m. fst (createPost cloud fresh now caller (Some pb) b_text b_img s)
                 = Inl (InvalidInput m))
          \<longleftrightarrow> text_rejected b_text)
       \<and> (text_rejected b_text
            \<longrightarrow> snd (createPost cloud fresh now caller (Some pb) b_text b_img s) = s)
       \<and> (\<forall>t. b_text = Some t \<and> length t = 500 \<and> upload_returns cloud b_img
            \<longrightarrow> (\<exists>p. fst (createPost cloud fresh now caller (Some pb) b_text b_img s) = Inr p
                     \<and> post_text p = t))"
proof (cases b_text)
  case None
  then show ?thesis by (simp add: createPost_def)
next
  case (Some t)
  show ?thesis
  proof (cases "t = []")
    case True
    then show ?thesis using Some by (simp add: createPost_def)
  next
    case False
    have same: "user_id user = user_id caller"
      using findById_user_id [OF assms(2)] assms(3) by simp
    note eq = createPost_checked [OF assms(2,1) False, of cloud fresh now caller b_img]
    show ?thesis
    proof (cases "500 < length t")
      case True
      then show ?thesis using eq same False Some by (simp add: maxLength_def)
    next
      case short: False
      show ?thesis
      proof (cases b_img)
        case None
        then show ?thesis using eq same False short Some
          by (simp add: maxLength_def persist_new_def new_Post_def)
      next
        case img: (Some i)
        then show ?thesis using eq same False short Some
          by (cases "upload cloud i")
             (auto simp: maxLength_def persist_new_def new_Post_def)
      qed
    qed
  qed
qed

text \<open>On the instance: alice posts 500 characters, then 501, both without image.\<close>

theorem createPost_text_limit_witness:
  "''u1'' \<noteq> [] \<and> User_findById ''u1'' (users store0) = Some alice \<and> user_id alice = ''u1''
   \<and> length (replicate 500 CHR ''a'') = 500 \<and> upload_returns cloud_up None
   \<and> (\<exists>p. fst (createPost cloud_up ''p9'' 30 alice (Some ''u1'')
                 (Some (replicate 500 CHR ''a'')) None store0) = Inr p)
   \<and> text_rejected (Some (replicate 501 CHR ''a''))
   \<and> (\<exists>m. fst (createPost cloud_up ''p9'' 30 alice (Some ''u1'')
                 (Some (replicate 501 CHR ''a'')) None store0) = Inl (InvalidInput m))
   \<and> snd (createPost cloud_up ''p9'' 30 alice (Some ''u1'')
            (Some (replicate 501 CHR ''a'')) None store0) = store0"
proof -
  have n: "''u1'' \<noteq> []" by simp
  have f: "User_findById ''u1'' (users store0) = Some alice"
    by (simp add: User_findById_def store0_def alice_def)
  have c: "user_id alice = ''u1''" by (simp add: alice_def)
  have r: "text_rejected (Some (replicate 501 CHR ''a''))" by simp
  show ?thesis
    using n f c r
      createPost_text_limit [OF n f c, of cloud_up "''p9''" 30
        "Some (replicate 500 CHR ''a'')" None]
      createPost_text_limit [OF n f c, of cloud_up "''p9''" 30
        "Some (replicate 501 CHR ''a'')" None]
    by auto
qed

text \<open>
  The claim as written fails: alice's request with an empty text has no more than
  500 characters and fails with \<open>InvalidInput\<close>.
\<close>

theorem createPost_text_limit_counterexample:
  "User_findById ''u1'' (users store0) = Some alice \<and> user_id alice = ''u1''
   \<and> \<not> 500 < length ([] :: string)
   \<and> createPost cloud_up ''p9'' 30 alice (Some ''u1'') (Some []) None store0
       = (Inl (InvalidInput ''Please fill all the fields''), store0)"
  by (simp add: User_findById_def store0_def alice_def createPost_def)

text \<open>
  C5 (as amended). For a create request whose \<open>postedBy\<close> is present and resolves to
  an existing user who is not the caller, and whose text is present, \<^verbatim>\<open>createPost\<close>
  fails with \<open>Unauthorized\<close>; the store is unchanged and no call is issued to the
  blob store.
\<close>

theorem createPost_not_self:
  assumes "pb \<noteq> []" and "User_findById pb (users s) = Some user"
      and "user_id caller \<noteq> pb" and "truthy b_text"
  shows "createPost cloud fresh now caller (Some pb) b_text b_img s
           = (Inl (Unauthorized ''Unauthorized to create post''), s)"
proof -
  obtain t where t: "b_text = Some t" "t \<noteq> []"
    using assms(4) by (cases b_text) auto
  have "user_id user \<noteq> user_id caller"
    using findById_user_id [OF assms(2)] assms(3) by simp
  then show ?thesis
    unfolding t using createPost_checked [OF assms(2,1) t(2)] by simp
qed

theorem createPost_not_self_witness:
  "''u1'' \<noteq> [] \<and> User_findById ''u1'' (users store0) = Some alice \<and> user_id bob \<noteq> ''u1''
   \<and> truthy (Some ''as alice'')
   \<and> createPost cloud_up ''p9'' 30 bob (Some ''u1'') (Some ''as alice'') (Some ''data'') store0
       = (Inl (Unauthorized ''Unauthorized to create post''), store0)"
proof -
  have n: "''u1'' \<noteq> []" by simp
  have f: "User_findById ''u1'' (users store0) = Some alice"
    by (simp add: User_findById_def store0_def alice_def)
  have c: "user_id bob \<noteq> ''u1''" by (simp add: bob_def)
  have t: "truthy (Some ''as alice'')" by simp
  show ?thesis
    using n f c t createPost_not_self [OF n f c t, of cloud_up "''p9''" 30 "Some ''data''"]
    by simp
qed

text \<open>
  The claim as written fails: bob's request in alice's name with an empty text fails
  with \<open>InvalidInput\<close>, the check of the fields coming first.
\<close>

theorem createPost_not_self_counterexample:
  "User_findById ''u1'' (users store0) = Some alice \<and> user_id bob \<noteq> ''u1''
   \<and> createPost cloud_up ''p9'' 30 bob (Some ''u1'') (Some []) None store0
       = (Inl (InvalidInput ''Please fill all the fields''), store0)"
  by (simp add: User_findById_def store0_def alice_def bob_def createPost_def)

text \<open>
  C8 (as amended). For a valid create request (the caller is \<open>postedBy\<close>, who resolves
  to an existing user, and the text has 1 to 500 characters): when there is no image
  to upload or the upload returns, \<^verbatim>\<open>createPost\<close> succeeds; and whenever it succeeds
  the returned Post has no likes and no replies.
\<close>

theorem createPost_valid:
  assumes "pb \<noteq> []" and "User_findById pb (users s) = Some user"
      and "user_id caller = pb" and "1 \<le> length t" and "length t \<le> 500"
  shows "(upload_returns cloud b_img
            \<longrightarrow> (\<exists>p. fst (createPost cloud fresh now caller (Some pb) (Some t) b_img s) = Inr p))
       \<and> (\<forall>p. fst (createPost cloud fresh now caller (Some pb) (Some t) b_img s) = Inr p
            \<longrightarrow> likes p = [] \<and> replies p = [])"
proof -
  have ne: "t \<noteq> []" using assms(4) by auto
  have same: "user_id user = user_id caller"
    using findById_user_id [OF assms(2)] assms(3) by simp
  note eq = createPost_checked [OF assms(2,1) ne, of cloud fresh now caller b_img]
  show ?thesis
  proof (cases b_img)
    case None
    then show ?thesis using eq same assms(5)
      by (simp add: maxLength_def persist_new_def new_Post_def)
  next
    case (Some i)
    then show ?thesis using eq same assms(5)
      by (cases "upload cloud i")
         (auto simp: maxLength_def persist_new_def new_Post_def)
  qed
qed

theorem createPost_valid_witness:
  "''u1'' \<noteq> [] \<and> User_findById ''u1'' (users store0) = Some alice \<and> user_id alice = ''u1''
   \<and> 1 \<le> length ''hi'' \<and> length ''hi'' \<le> 500 \<and> upload_returns cloud_up (Some ''data'')
   \<and> fst (createPost cloud_up ''p9'' 30 alice (Some ''u1'') (Some ''hi'') (Some ''data'') store0)
       = Inr \<lparr>post_id = ''p9'', postedBy = ''u1'', post_text = ''hi'',
              img = Some ''https://res.cloudinary.com/demo/data'',
              likes = [], replies = [], createdAt = 30\<rparr>"
proof -
  have n: "''u1'' \<noteq> []" by simp
  have f: "User_findById ''u1'' (users store0) = Some alice"
    by (simp add: User_findById_def store0_def alice_def)
  have c: "user_id alice = ''u1''" by (simp add: alice_def)
  have l1: "1 \<le> length ''hi''" by simp
  have l2: "length ''hi'' \<le> 500" by simp
  have u: "upload_returns cloud_up (Some ''data'')" by (simp add: cloud_up_def)
  have v: "fst (createPost cloud_up ''p9'' 30 alice (Some ''u1'') (Some ''hi'') (Some ''data'') store0)
       = Inr \<lparr>post_id = ''p9'', postedBy = ''u1'', post_text = ''hi'',
              img = Some ''https://res.cloudinary.com/demo/data'',
              likes = [], replies = [], createdAt = 30\<rparr>"
    by (simp add: createPost_checked [OF f n] alice_def maxLength_def cloud_up_def
          persist_new_def new_Post_def)
  show ?thesis
    using n f c l1 l2 u v
      createPost_valid [OF n f c l1 l2, of cloud_up "Some ''data''" "''p9''" 30]
    by simp
qed

text \<open>
  The claim as written fails: alice's valid request with an image fails with
  \<open>StorageError\<close> when the upload throws, and no post is persisted.
\<close>

theorem createPost_valid_counterexample:
  "User_findById ''u1'' (users store0) = Some alice \<and> user_id alice = ''u1''
   \<and> 1 \<le> length ''hi'' \<and> length ''hi'' \<le> 500
   \<and> createPost cloud_down ''p9'' 30 alice (Some ''u1'') (Some ''hi'') (Some ''data'') store0
       = (Inl (StorageError ''unavailable''), store0\<lparr>calls := [Upload ''data'']\<rparr>)"
  by (simp add: User_findById_def store0_def alice_def createPost_def maxLength_def
        cloud_down_def)

section \<open>Deleting a post\<close>

text \<open>
  C7. For an existing post and a caller who is not its owner, \<^verbatim>\<open>deletePost\<close> fails
  with \<open>Unauthorized\<close> and the state is unchanged: the post stays in the collection
  and no call is issued to the blob store or to the collection.
\<close>

theorem deletePost_not_owner:
  assumes "Post_findById i (posts s) = Some post"
      and "user_id caller \<noteq> postedBy post"
  shows "deletePost cloud caller i s = (Inl (Unauthorized ''Unauthorized to delete post''), s)"
  using assms by (auto simp: deletePost_def)

theorem deletePost_not_owner_witness:
  "Post_findById ''p1'' (posts store0) = Some post1 \<and> user_id bob \<noteq> postedBy post1
   \<and> deletePost cloud_up bob ''p1'' store0
       = (Inl (Unauthorized ''Unauthorized to delete post''), store0)"
proof -
  have f: "Post_findById ''p1'' (posts store0) = Some post1"
    by (simp add: Post_findById_def store0_def post1_def)
  have n: "user_id bob \<noteq> postedBy post1" by (simp add: bob_def post1_def)
  show ?thesis using f n deletePost_not_owner [OF f n, of cloud_up] by simp
qed




section \<open>The feed\<close>

text \<open>
  C6. For a caller whose user record exists with following set \<open>F\<close>, \<^verbatim>\<open>getFeedPosts\<close>
  returns exactly the posts whose \<open>postedBy\<close> is in \<open>F\<close>, each as often as it is in
  the collection and no other post, sorted by \<open>createdAt\<close> descending.
\<close>

theorem getFeedPosts_exact:
  assumes "User_findById (user_id caller) (users s) = Some user"
  shows "\<exists>feed. getFeedPosts caller s = Inr feed
       \<and> mset feed = filter_mset (\<lambda>p. postedBy p \<in> set (following user)) (mset (posts s))
       \<and> set feed = {p \<in> set (posts s). postedBy p \<in> set (following user)}
       \<and> sorted_wrt (\<lambda>a b. createdAt b \<le> createdAt a) feed"
proof -
  let ?feed = "Post_find_in (following user) (posts s)"
  have "getFeedPosts caller s = Inr ?feed" using assms by (simp add: getFeedPosts_def)
  moreover have "mset ?feed = filter_mset (\<lambda>p. postedBy p \<in> set (following user)) (mset (posts s))"
    by (simp add: Post_find_in_def mset_js_sort)
  moreover have "set ?feed = {p \<in> set (posts s). postedBy p \<in> set (following user)}"
    by (auto simp: Post_find_in_def set_js_sort)
  ultimately show ?thesis using Post_find_in_sorted by blast
qed

text \<open>On the instance: alice follows bob, whose newer post comes first.\<close>

theorem getFeedPosts_exact_witness:
  "User_findById (user_id alice) (users store0) = Some alice
   \<and> getFeedPosts alice store0 = Inr [post3, post2]
   \<and> {p \<in> set (posts store0). postedBy p \<in> set (following alice)} = {post3, post2}"
proof -
  have f: "User_findById (user_id alice) (users store0) = Some alice"
    by (simp add: User_findById_def store0_def alice_def)
  have v: "getFeedPosts alice store0 = Inr [post3, post2]"
    by (simp add: getFeedPosts_def f)
       (simp add: Post_find_in_def js_sort_def compare_posts_def store0_def alice_def
          post1_def post2_def post3_def)
  show ?thesis using f v getFeedPosts_exact [OF f] by auto
qed

end
